theory Spec2Isabelle
  imports Complex_Main
begin

section \<open>The angle-control script \<^verbatim>\<open>src/src/main.py\<close>\<close>

text \<open>
  The script keeps its sequencer in module globals, reads the encoder count \<^verbatim>\<open>r._value\<close>
  (half-steps, written by the decoder from interrupt context) and drives one output pin.
  The globals, the count and the pin level are the fields of one record.
  The pin \<^verbatim>\<open>output\<close> is the field \<open>output_pin\<close> (True is on).
  \<^verbatim>\<open>current_target_index\<close> is only ever assigned \<open>0\<close> or incremented, so it is a \<open>nat\<close>.
  Python's floats are modelled by exact rationals: \<^verbatim>\<open>x / 2.0\<close> is \<open>x / 2\<close> in \<open>rat\<close>.
  The encoder class \<^verbatim>\<open>RotaryIRQ\<close> is a library outside the repository's files; the script
  uses its field \<^verbatim>\<open>_value\<close> and its method \<^verbatim>\<open>set\<close>, and \<^verbatim>\<open>r.set(0)\<close> is taken to write
  the count 0.
\<close>

record state =
  target_angles :: "int list"
  current_target_index :: nat
  encoder_active :: bool
  reset_detected :: bool
  triggered :: bool
  loop_running :: bool
  r_value :: int
  output_pin :: bool

text \<open>The globals as the module initialises them (lines 20--25), the count at \<^verbatim>\<open>min_val\<close>,
  the pin low.\<close>

definition boot_state :: state where
  "boot_state =
     \<lparr>target_angles = [], current_target_index = 0, encoder_active = False,
      reset_detected = False, triggered = False, loop_running = False,
      r_value = 0, output_pin = False\<rparr>"

text \<open>Every \<^verbatim>\<open>print\<close> of the script is one message of the console trace.\<close>

datatype msg =
    TargetReached rat
  | EncoderReset
  | AllCompleted
  | EncoderStopped
  | TargetsSet "rat list"
  | InvalidFormat
  | EnterNewAngles
  | UnknownCommand

subsection \<open>\<^verbatim>\<open>stop_encoder\<close> (lines 85--89)\<close>

definition stop_encoder :: "state \<Rightarrow> msg list \<times> state" where
  "stop_encoder s = ([EncoderStopped], s\<lparr>encoder_active := False, output_pin := False\<rparr>)"

subsection \<open>One iteration of the loop of \<^verbatim>\<open>rotary_loop\<close> (lines 33--69)\<close>

text \<open>
  \<open>Sleeping\<close>: the guard of line 33 held, the iteration slept and read nothing.
  \<open>Polled\<close>: the iteration ran to the sleep of line 69.
  \<open>Completed\<close>: the queue was exhausted; the state is the one after line 62, and the
  caller goes on with \<^verbatim>\<open>prompt_for_angles()\<close> and \<^verbatim>\<open>break\<close>.
  \<open>Raised\<close>: the list access of line 39 was out of range (IndexError).
\<close>

datatype poll_result =
    Sleeping
  | Polled "msg list" state
  | Completed "msg list" state
  | Raised

text \<open>Lines 42--48: the trigger test compares the half-step count with the target in degrees.\<close>

definition trigger_step :: "int \<Rightarrow> rat \<Rightarrow> state \<Rightarrow> msg list \<times> state" where
  "trigger_step steps target s =
     (if \<not> triggered s \<and> of_int steps \<ge> target
      then ([TargetReached target], s\<lparr>output_pin := True, triggered := True\<rparr>)
      else ([], s\<lparr>output_pin := False\<rparr>))"

text \<open>Lines 66--67.\<close>

definition clear_step :: "rat \<Rightarrow> state \<Rightarrow> state" where
  "clear_step angle s = (if angle > 5 then s\<lparr>reset_detected := False\<rparr> else s)"

definition poll :: "state \<Rightarrow> poll_result" where
  "poll s =
     (if \<not> encoder_active s \<or> target_angles s = [] then Sleeping
      else if length (target_angles s) \<le> current_target_index s then Raised
      else
        let steps = r_value s;
            angle = (of_int steps / 2 :: rat);
            target = (of_int (target_angles s ! current_target_index s) / 2 :: rat);
            (m1, s1) = trigger_step steps target s
        in if angle < 2 \<and> \<not> reset_detected s1
           then
             let s2 = s1\<lparr>r_value := 0, reset_detected := True, triggered := False,
                        current_target_index := current_target_index s1 + 1\<rparr>
             in if current_target_index s2 \<ge> length (target_angles s2)
                then
                  let (m3, s3) = stop_encoder s2
                  in Completed (m1 @ [EncoderReset, AllCompleted] @ m3) (s3\<lparr>loop_running := False\<rparr>)
                else Polled (m1 @ [EncoderReset]) (clear_step angle s2)
           else Polled m1 (clear_step angle s1))"

subsection \<open>Python string operations used by the command parser\<close>

text \<open>The ASCII characters \<^verbatim>\<open>str.strip()\<close> removes: space, tab, newline, vertical tab,
  form feed, carriage return.\<close>

definition is_space :: "char \<Rightarrow> bool" where
  "is_space c \<longleftrightarrow> c \<in> set [CHR '' '', CHR 0x09, CHR 0x0A, CHR 0x0B, CHR 0x0C, CHR 0x0D]"

definition strip :: "string \<Rightarrow> string" where
  "strip s = rev (dropWhile is_space (rev (dropWhile is_space s)))"

text \<open>\<^verbatim>\<open>s.split(sep)\<close> for a one-character separator: always at least one piece.\<close>

fun split_on :: "char \<Rightarrow> string \<Rightarrow> string list" where
  "split_on c [] = [[]]"
| "split_on c (x # xs) =
     (if x = c then [] # split_on c xs
      else (x # hd (split_on c xs)) # tl (split_on c xs))"

text \<open>\<^verbatim>\<open>s.split(" ", 1)[1]\<close>: the text after the first space; IndexError (\<open>None\<close>) when
  there is no space.\<close>

definition after_first_space :: "string \<Rightarrow> string option" where
  "after_first_space s =
     (if CHR '' '' \<in> set s then Some (tl (dropWhile (\<lambda>c. c \<noteq> CHR '' '') s)) else None)"

definition is_digit :: "char \<Rightarrow> bool" where
  "is_digit c \<longleftrightarrow> c \<in> set ''0123456789''"

definition digit_val :: "char \<Rightarrow> nat" where
  "digit_val c = of_char c - 48"

definition digits_val :: "string \<Rightarrow> nat" where
  "digits_val ds = foldl (\<lambda>n c. 10 * n + digit_val c) 0 ds"

definition drop_sign :: "string \<Rightarrow> bool \<times> string" where
  "drop_sign s =
     (case s of
        c # r \<Rightarrow> (if c = CHR ''-'' then (True, r) else if c = CHR ''+'' then (False, r) else (False, s))
      | [] \<Rightarrow> (False, s))"

text \<open>The exponent part of a float literal: empty, or \<^verbatim>\<open>e\<close>/\<^verbatim>\<open>E\<close>, an optional sign and at
  least one digit, up to the end of the text.\<close>

definition py_exponent :: "string \<Rightarrow> int option" where
  "py_exponent s =
     (case s of
        [] \<Rightarrow> Some 0
      | c # r \<Rightarrow>
          (if c = CHR ''e'' \<or> c = CHR ''E'' then
             (let (neg, ds) = drop_sign r
              in if ds \<noteq> [] \<and> list_all is_digit ds
                 then Some (if neg then - int (digits_val ds) else int (digits_val ds))
                 else None)
           else None))"

text \<open>
  \<^verbatim>\<open>float(text)\<close> on a decimal literal: surrounding whitespace, an optional sign, digits with
  an optional point (at least one digit before or after it), an optional exponent. The
  result is the exact decimal value. \<open>None\<close> is ValueError. The literals \<^verbatim>\<open>inf\<close>, \<^verbatim>\<open>infinity\<close>
  and \<^verbatim>\<open>nan\<close>, which \<^verbatim>\<open>float\<close> accepts and \<^verbatim>\<open>int\<close> then refuses with an exception, are
  \<open>None\<close> here as well: both exceptions are raised inside the same \<^verbatim>\<open>try\<close> of \<^verbatim>\<open>set_angles\<close>.
  Digit separators and the rounding of binary floating point are outside the model.
\<close>

definition py_float :: "string \<Rightarrow> rat option" where
  "py_float text =
     (let (neg, body) = drop_sign (strip text);
          ip = takeWhile is_digit body;
          r1 = dropWhile is_digit body;
          has_point = (r1 \<noteq> [] \<and> hd r1 = CHR ''.'');
          fp = (if has_point then takeWhile is_digit (tl r1) else []);
          r2 = (if has_point then dropWhile is_digit (tl r1) else r1)
      in if ip = [] \<and> fp = [] then None
         else
           (case py_exponent r2 of
              None \<Rightarrow> None
            | Some e \<Rightarrow>
                (let m = (of_nat (digits_val (ip @ fp)) / 10 ^ length fp :: rat);
                     v = (if e \<ge> 0 then m * 10 ^ nat e else m / 10 ^ nat (- e))
                 in Some (if neg then - v else v))))"

text \<open>\<^verbatim>\<open>int(x)\<close> on a float truncates toward zero.\<close>

definition py_int :: "rat \<Rightarrow> int" where
  "py_int x = (if x \<ge> 0 then \<lfloor>x\<rfloor> else \<lceil>x\<rceil>)"

subsection \<open>\<^verbatim>\<open>set_angles\<close> (lines 71--83)\<close>

text \<open>The element expression of line 75, \<^verbatim>\<open>int(float(a.strip()) * 2)\<close>.\<close>

definition half_steps :: "string \<Rightarrow> int option" where
  "half_steps a = map_option (\<lambda>v. py_int (v * 2)) (py_float (strip a))"


text \<open>The tokens line 75 keeps: the pieces between commas that are not blank.\<close>

definition tokens :: "string \<Rightarrow> string list" where
  "tokens raw = filter (\<lambda>a. strip a \<noteq> []) (split_on CHR '','' raw)"

text \<open>Lines 74--75; \<open>None\<close> when either line raises.\<close>

definition parse_angles :: "string \<Rightarrow> int list option" where
  "parse_angles cmd =
     (case after_first_space (strip cmd) of
        None \<Rightarrow> None
      | Some raw \<Rightarrow> those (map half_steps (tokens raw)))"

text \<open>
  The result is the console trace, whether a \<^verbatim>\<open>rotary_loop\<close> thread was started (line 81),
  and the globals. An exception of lines 74--75 is caught by the bare \<^verbatim>\<open>except\<close> before any
  global is assigned.
\<close>

definition set_angles :: "string \<Rightarrow> state \<Rightarrow> msg list \<times> bool \<times> state" where
  "set_angles cmd s =
     (case parse_angles cmd of
        None \<Rightarrow> ([InvalidFormat], False, s)
      | Some angles \<Rightarrow>
          (let s' = s\<lparr>target_angles := angles, current_target_index := 0,
                      encoder_active := True, loop_running := True\<rparr>
           in ([TargetsSet (map (\<lambda>a. of_int a / 2) (target_angles s'))], True, s')))"

subsection \<open>\<^verbatim>\<open>prompt_for_angles\<close> (lines 91--105)\<close>

text \<open>\<^verbatim>\<open>str.lower()\<close> on ASCII text.\<close>

definition lower_char :: "char \<Rightarrow> char" where
  "lower_char c =
     (case map_of (zip ''ABCDEFGHIJKLMNOPQRSTUVWXYZ'' ''abcdefghijklmnopqrstuvwxyz'') c of
        Some d \<Rightarrow> d
      | None \<Rightarrow> c)"

definition lower :: "string \<Rightarrow> string" where
  "lower s = map lower_char s"

text \<open>
  How the prompt ends: a \<^verbatim>\<open>set\<close> line that started a \<^verbatim>\<open>rotary_loop\<close> thread, a line
  (\<^verbatim>\<open>stop\<close>, or a refused \<^verbatim>\<open>set\<close>) after which nothing was started, or no line left and
  \<^verbatim>\<open>input\<close> still waiting.
\<close>

datatype prompt_end = ThreadStarted | NothingStarted | AwaitingInput

text \<open>The loop of lines 93--105 over the lines typed at the console.\<close>

fun prompt_loop :: "string list \<Rightarrow> state \<Rightarrow> msg list \<times> prompt_end \<times> state" where
  "prompt_loop [] s = ([], AwaitingInput, s)"
| "prompt_loop (l # ls) s =
     (let cmd = lower (strip l)
      in if take 4 cmd = ''set '' then
           (case set_angles cmd s of
              (m, started, s') \<Rightarrow> (m, if started then ThreadStarted else NothingStarted, s'))
         else if cmd = ''stop'' then
           (case stop_encoder s of (m, s') \<Rightarrow> (m, NothingStarted, s'))
         else
           (case prompt_loop ls s of (m, e, s') \<Rightarrow> (UnknownCommand # m, e, s')))"

definition prompt_for_angles :: "string list \<Rightarrow> state \<Rightarrow> msg list \<times> prompt_end \<times> state" where
  "prompt_for_angles ls s =
     (case prompt_loop ls s of (m, e, s') \<Rightarrow> (EnterNewAngles # m, e, s'))"

subsection \<open>\<^verbatim>\<open>rotary_loop\<close> (lines 27--69)\<close>

text \<open>
  The decoder changes the count between two iterations; the loop is run over the list of
  counts it finds, one per iteration, and over the console lines a prompt would read.
  The result is the console trace, how the thread ended, the globals, and the counts not
  consumed. \<open>StillRunning\<close>: the counts ran out with the loop still going.
\<close>

datatype loop_end = StillRunning | LoopExit | Prompted prompt_end | ThreadDied

fun while_loop :: "int list \<Rightarrow> string list \<Rightarrow> state \<Rightarrow> msg list \<times> loop_end \<times> state \<times> int list" where
  "while_loop [] ls s = ([], if loop_running s then StillRunning else LoopExit, s, [])"
| "while_loop (p # ps) ls s =
     (if \<not> loop_running s then ([], LoopExit, s, p # ps)
      else
        (case poll (s\<lparr>r_value := p\<rparr>) of
           Sleeping \<Rightarrow> while_loop ps ls (s\<lparr>r_value := p\<rparr>)
         | Polled m s' \<Rightarrow>
             (case while_loop ps ls s' of (m', e, s'', rest) \<Rightarrow> (m @ m', e, s'', rest))
         | Completed m s' \<Rightarrow>
             (case prompt_for_angles ls s' of (m', e, s'') \<Rightarrow> (m @ m', Prompted e, s'', ps))
         | Raised \<Rightarrow> ([], ThreadDied, s\<lparr>r_value := p\<rparr>, ps)))"

definition rotary_loop :: "int list \<Rightarrow> string list \<Rightarrow> state \<Rightarrow> msg list \<times> loop_end \<times> state \<times> int list" where
  "rotary_loop ps ls s = while_loop ps ls (s\<lparr>loop_running := True\<rparr>)"

text \<open>What one iteration printed, and the globals after it.\<close>

definition poll_msgs :: "poll_result \<Rightarrow> msg list" where
  "poll_msgs r = (case r of Sleeping \<Rightarrow> [] | Polled m s' \<Rightarrow> m | Completed m s' \<Rightarrow> m | Raised \<Rightarrow> [])"

definition after_poll :: "state \<Rightarrow> state" where
  "after_poll s = (case poll s of Sleeping \<Rightarrow> s | Polled m s' \<Rightarrow> s' | Completed m s' \<Rightarrow> s' | Raised \<Rightarrow> s)"

subsection \<open>Interleavings of loop iterations and console lines\<close>

text \<open>
  \<open>Tick p\<close>: the decoder has left the count at \<open>p\<close> and a \<^verbatim>\<open>rotary_loop\<close> thread, if
  \<^verbatim>\<open>loop_running\<close> lets one go on, runs one iteration. \<open>Line l\<close>: the prompt reads the
  line \<open>l\<close>. A run is any sequence of the two, so it covers every order in which the
  script can execute them.
\<close>

datatype event = Tick int | Line string

fun step :: "event \<Rightarrow> state \<Rightarrow> msg list \<times> state" where
  "step (Tick p) s =
     (if \<not> loop_running s then ([], s\<lparr>r_value := p\<rparr>)
      else
        (case poll (s\<lparr>r_value := p\<rparr>) of
           Sleeping \<Rightarrow> ([], s\<lparr>r_value := p\<rparr>)
         | Polled m s' \<Rightarrow> (m, s')
         | Completed m s' \<Rightarrow> (m @ [EnterNewAngles], s')
         | Raised \<Rightarrow> ([], s\<lparr>r_value := p\<rparr>)))"
| "step (Line l) s = (case prompt_loop [l] s of (m, e, s') \<Rightarrow> (m, s'))"

fun run :: "event list \<Rightarrow> state \<Rightarrow> msg list \<times> state" where
  "run [] s = ([], s)"
| "run (e # es) s =
     (case step e s of (m, s') \<Rightarrow> (case run es s' of (m', s'') \<Rightarrow> (m @ m', s'')))"

text \<open>
  An iteration reads the count (line 37) when the loop is going and the guard of line 33
  lets it through. \<open>no_count_above b es s\<close>: in the run of \<open>es\<close> from \<open>s\<close>, no iteration
  reads a count above \<open>b\<close>.
\<close>

definition reads_count :: "state \<Rightarrow> bool" where
  "reads_count s \<longleftrightarrow> loop_running s \<and> encoder_active s \<and> target_angles s \<noteq> []"

fun no_count_above :: "int \<Rightarrow> event list \<Rightarrow> state \<Rightarrow> bool" where
  "no_count_above b [] s = True"
| "no_count_above b (Tick q # es) s =
     ((reads_count s \<longrightarrow> q \<le> b) \<and> no_count_above b es (snd (step (Tick q) s)))"
| "no_count_above b (Line l # es) s = no_count_above b es (snd (step (Line l) s))"

text \<open>Line 39 is in range whenever an iteration gets to it.\<close>

definition index_in_range :: "state \<Rightarrow> bool" where
  "index_in_range s \<longleftrightarrow>
     (encoder_active s \<and> target_angles s \<noteq> [] \<longrightarrow> current_target_index s < length (target_angles s))"

section \<open>Properties\<close>

subsection \<open>Arithmetic of the comparisons of the loop\<close>

lemma angle_lt_2: "((of_int x / 2 :: rat) < 2) = (x < 4)"
proof -
  have "((of_int x / 2 :: rat) < 2) = ((of_int x :: rat) < of_int 4)" by simp
  also have "\<dots> = (x < 4)" by (simp only: of_int_less_iff)
  finally show ?thesis .
qed

lemma angle_gt_5: "((5 :: rat) < of_int x / 2) = (10 < x)"
proof -
  have "((5 :: rat) < of_int x / 2) = ((of_int 10 :: rat) < of_int x)" by simp
  also have "\<dots> = (10 < x)" by (simp only: of_int_less_iff)
  finally show ?thesis .
qed

lemma target_le_steps: "((of_int t / 2 :: rat) \<le> of_int x) = (t \<le> 2 * x)"
proof -
  have "((of_int t / 2 :: rat) \<le> of_int x) = ((of_int t :: rat) \<le> of_int (2 * x))"
    by (simp add: mult.commute)
  also have "\<dots> = (t \<le> 2 * x)" by (simp only: of_int_le_iff)
  finally show ?thesis .
qed

lemmas poll_unfold = poll_def poll_msgs_def after_poll_def trigger_step_def clear_step_def
  stop_encoder_def Let_def angle_lt_2 angle_gt_5 target_le_steps





subsection \<open>The trigger\<close>

text \<open>
  C1. The claim: the actuator is set on exactly when the sequencer first observes
  position \<open>\<ge>\<close> queue[current_target_index], for the queue [90, 180] at Position 90 and not
  before. The script compares the half-step count with the target in degrees
  (line 39 halves the queue entry, line 42 compares \<^verbatim>\<open>steps\<close> with it): in an active run with
  the triggered flag clear, an iteration reports the target reached exactly when
  queue[current_target_index] \<open>\<le>\<close> 2 * position, and, away from the near-zero band, the
  actuator is on after it exactly then. For the queue [90, 180] the actuator turns on at
  Position 45.
\<close>

theorem trigger_fires_at_half_the_target:
  assumes "encoder_active s" and "current_target_index s < length (target_angles s)"
    and "\<not> triggered s"
  shows "(TargetReached (of_int (target_angles s ! current_target_index s) / 2)
            \<in> set (poll_msgs (poll s)))
         = (target_angles s ! current_target_index s \<le> 2 * r_value s)
       \<and> (4 \<le> r_value s \<longrightarrow>
            output_pin (after_poll s) = (target_angles s ! current_target_index s \<le> 2 * r_value s))"
  using assms by (auto simp: poll_unfold)

theorem trigger_fires_at_half_the_target_witness:
  "(let s = (snd (snd (set_angles ''set 45,90'' boot_state)))\<lparr>r_value := 45\<rparr>
    in target_angles s = [90, 180] \<and> current_target_index s = 0 \<and> r_value s = 45
       \<and> TargetReached 45 \<in> set (poll_msgs (poll s)) \<and> output_pin (after_poll s))"
proof -
  define s where "s = (snd (snd (set_angles ''set 45,90'' boot_state)))\<lparr>r_value := 45\<rparr>"
  have s: "s = \<lparr>target_angles = [90, 180], current_target_index = 0, encoder_active = True,
      reset_detected = False, triggered = False, loop_running = True,
      r_value = 45, output_pin = False\<rparr>"
    unfolding s_def by code_simp
  have "encoder_active s" "current_target_index s < length (target_angles s)" "\<not> triggered s"
    by (simp_all add: s)
  from trigger_fires_at_half_the_target [OF this]
  have "TargetReached 45 \<in> set (poll_msgs (poll s)) \<and> output_pin (after_poll s)"
    by (simp add: s)
  then show ?thesis unfolding s_def [symmetric] Let_def by (simp add: s)
qed

text \<open>
  C2. The claim: after the trigger the actuator stays on across every later poll until the
  near-zero reset. In the script the else branch of line 47 sets the actuator off in every
  iteration that does not trigger, and a set triggered flag keeps the iteration from
  triggering. As amended: after an iteration that triggers (and does not reset in the same
  iteration) the actuator is on and the flag is set, and the next iteration sets the
  actuator off whatever position it observes.
\<close>

theorem actuator_off_on_poll_after_trigger:
  assumes "poll s = Polled m s1" and "TargetReached t \<in> set m" and "EncoderReset \<notin> set m"
  shows "output_pin s1 \<and> triggered s1 \<and> (\<forall>p. \<not> output_pin (after_poll (s1\<lparr>r_value := p\<rparr>)))"
  using assms by (auto simp: poll_unfold split: if_splits)

theorem actuator_off_on_poll_after_trigger_witness:
  "(let s = (snd (snd (set_angles ''set 45,90'' boot_state)))\<lparr>r_value := 90\<rparr>;
        s1 = s\<lparr>output_pin := True, triggered := True\<rparr>
    in poll s = Polled [TargetReached 45] s1 \<and> output_pin s1 \<and> triggered s1
       \<and> \<not> output_pin (after_poll (s1\<lparr>r_value := 90\<rparr>))
       \<and> \<not> output_pin (after_poll (s1\<lparr>r_value := 200\<rparr>)))"
proof -
  define s where "s = (snd (snd (set_angles ''set 45,90'' boot_state)))\<lparr>r_value := 90\<rparr>"
  define s1 where "s1 = s\<lparr>output_pin := True, triggered := True\<rparr>"
  have p: "poll s = Polled [TargetReached 45] s1"
    unfolding s1_def s_def by code_simp
  have "TargetReached 45 \<in> set [TargetReached 45]" "EncoderReset \<notin> set [TargetReached 45]"
    by simp_all
  from actuator_off_on_poll_after_trigger [OF p this]
  show ?thesis unfolding s_def [symmetric] s1_def [symmetric] Let_def using p by simp
qed

theorem actuator_not_held_counterexample:
  "output_pin (snd (run [Line ''set 45,90'', Tick 90] boot_state))
   \<and> \<not> output_pin (snd (run [Line ''set 45,90'', Tick 90, Tick 90] boot_state))
   \<and> fst (run [Line ''set 45,90'', Tick 90, Tick 90] boot_state)
       = [TargetsSet [45, 90], TargetReached 45]
   \<and> target_angles (snd (run [Line ''set 45,90'', Tick 90, Tick 90] boot_state)) = [90, 180]
   \<and> current_target_index (snd (run [Line ''set 45,90'', Tick 90, Tick 90] boot_state)) = 0
   \<and> r_value (snd (run [Line ''set 45,90'', Tick 90, Tick 90] boot_state)) = 90"
  by code_simp

subsection \<open>The near-zero reset\<close>

text \<open>
  C3. The claim: the reset transition is taken only from the Triggered state, never for an
  index whose target was not reached. The test of line 51 does not read the triggered
  flag: every iteration of an active run that observes a position below 4 half-steps with
  \<^verbatim>\<open>reset_detected\<close> clear resets the count, clears the triggered flag and advances the
  index, triggered or not. Right after \<^verbatim>\<open>set 45,90\<close> at Position 0 the first iteration
  advances the index to 1 with the actuator never on.
\<close>

theorem reset_fires_without_trigger:
  assumes "encoder_active s" and "current_target_index s < length (target_angles s)"
    and "r_value s < 4" and "\<not> reset_detected s"
  shows "EncoderReset \<in> set (poll_msgs (poll s))
       \<and> current_target_index (after_poll s) = current_target_index s + 1
       \<and> r_value (after_poll s) = 0 \<and> \<not> triggered (after_poll s) \<and> reset_detected (after_poll s)"
  using assms by (auto simp: poll_unfold)

theorem reset_fires_without_trigger_witness:
  "(let s = snd (snd (set_angles ''set 45,90'' boot_state))
    in target_angles s = [90, 180] \<and> current_target_index s = 0 \<and> r_value s = 0
       \<and> \<not> triggered s \<and> \<not> output_pin s
       \<and> EncoderReset \<in> set (poll_msgs (poll s))
       \<and> current_target_index (after_poll s) = 1
       \<and> \<not> output_pin (after_poll s))"
proof -
  define s where "s = snd (snd (set_angles ''set 45,90'' boot_state))"
  have s: "s = \<lparr>target_angles = [90, 180], current_target_index = 0, encoder_active = True,
      reset_detected = False, triggered = False, loop_running = True,
      r_value = 0, output_pin = False\<rparr>"
    unfolding s_def by code_simp
  have "encoder_active s" "current_target_index s < length (target_angles s)"
    "r_value s < 4" "\<not> reset_detected s"
    by (simp_all add: s)
  from reset_fires_without_trigger [OF this]
  have "EncoderReset \<in> set (poll_msgs (poll s)) \<and> current_target_index (after_poll s) = 1"
    by (simp add: s)
  moreover have "\<not> output_pin (after_poll s)"
    unfolding s by code_simp
  ultimately show ?thesis unfolding s_def [symmetric] Let_def by (simp add: s)
qed

subsection \<open>The start command\<close>




text \<open>
  C5. The claim: a \<^verbatim>\<open>set\<close> command with an empty target list is rejected and changes
  nothing. With no text after the command word, line 74 raises and the command is
  rejected. With only blank tokens between commas, the filter of line 75 leaves the empty
  list and nothing raises: the command is accepted. As amended: the first kind is rejected
  with the rejection message and no state change; the second installs the empty queue,
  index 0 and both run flags and starts the loop thread, whose iterations then sleep at the
  guard of line 33.
\<close>

theorem set_angles_blank_list:
  "(after_first_space (strip cmd) = None \<longrightarrow> set_angles cmd s = ([InvalidFormat], False, s))
   \<and> (\<forall>raw. after_first_space (strip cmd) = Some raw \<and> tokens raw = [] \<longrightarrow>
         set_angles cmd s =
           ([TargetsSet []], True,
            s\<lparr>target_angles := [], current_target_index := 0,
              encoder_active := True, loop_running := True\<rparr>)
         \<and> (\<forall>p. poll (s\<lparr>target_angles := [], current_target_index := 0,
                      encoder_active := True, loop_running := True, r_value := p\<rparr>) = Sleeping))"
  by (simp add: set_angles_def parse_angles_def poll_def Let_def)

theorem set_angles_blank_list_witness:
  "set_angles ''set'' boot_state = ([InvalidFormat], False, boot_state)
   \<and> set_angles ''set  '' boot_state = ([InvalidFormat], False, boot_state)
   \<and> set_angles ''set , ,'' boot_state =
       ([TargetsSet []], True, boot_state\<lparr>encoder_active := True, loop_running := True\<rparr>)
   \<and> poll (boot_state\<lparr>encoder_active := True, loop_running := True, r_value := 100\<rparr>) = Sleeping"
proof -
  have a: "after_first_space (strip ''set'') = None" by code_simp
  have a': "after_first_space (strip ''set  '') = None" by code_simp
  have b: "after_first_space (strip ''set , ,'') = Some '', ,'' \<and> tokens '', ,'' = []"
    by code_simp
  have c: "boot_state\<lparr>target_angles := [], current_target_index := 0,
              encoder_active := True, loop_running := True\<rparr>
           = boot_state\<lparr>encoder_active := True, loop_running := True\<rparr>"
    by (simp add: boot_state_def)
  have d: "boot_state\<lparr>target_angles := [], current_target_index := 0,
              encoder_active := True, loop_running := True, r_value := 100\<rparr>
           = boot_state\<lparr>encoder_active := True, loop_running := True, r_value := 100\<rparr>"
    by (simp add: boot_state_def)
  show ?thesis
    using set_angles_blank_list [of "''set''" boot_state] set_angles_blank_list [of "''set  ''" boot_state]
      set_angles_blank_list [of "''set , ,''" boot_state] a a' b
    by (simp add: c d)
qed

theorem blank_list_accepted_counterexample:
  "after_first_space (strip ''set ,'') = Some '','' \<and> tokens '','' = []
   \<and> set_angles ''set ,'' boot_state =
       ([TargetsSet []], True, boot_state\<lparr>encoder_active := True, loop_running := True\<rparr>)
   \<and> snd (snd (set_angles ''set ,'' boot_state)) \<noteq> boot_state
   \<and> prompt_for_angles [''set ,''] boot_state =
       ([EnterNewAngles, TargetsSet []], ThreadStarted,
        boot_state\<lparr>encoder_active := True, loop_running := True\<rparr>)"
  by code_simp



text \<open>
  C10. An accepted start command assigns the queue, index 0 and the two run flags
  \<^verbatim>\<open>encoder_active\<close> and \<^verbatim>\<open>loop_running\<close>, and nothing else: the latches \<^verbatim>\<open>triggered\<close> and
  \<^verbatim>\<open>reset_detected\<close>, the pin and the count are as the previous run left them.
\<close>

theorem set_angles_frame:
  assumes "set_angles cmd s = (m, True, s')"
  shows "\<exists>angles. parse_angles cmd = Some angles
        \<and> s' = s\<lparr>target_angles := angles, current_target_index := 0,
                  encoder_active := True, loop_running := True\<rparr>
        \<and> target_angles s' = angles \<and> current_target_index s' = 0
        \<and> encoder_active s' \<and> loop_running s'
        \<and> triggered s' = triggered s \<and> reset_detected s' = reset_detected s
        \<and> output_pin s' = output_pin s \<and> r_value s' = r_value s"
  using assms by (auto simp: set_angles_def Let_def split: option.splits)

theorem set_angles_frame_witness:
  "(let s = \<lparr>target_angles = [90, 180], current_target_index = 1, encoder_active = False,
              reset_detected = True, triggered = True, loop_running = False,
              r_value = 17, output_pin = True\<rparr>
    in set_angles ''set 10.5'' s
         = ([TargetsSet [21 / 2]], True,
            s\<lparr>target_angles := [21], current_target_index := 0,
              encoder_active := True, loop_running := True\<rparr>)
       \<and> triggered (snd (snd (set_angles ''set 10.5'' s)))
       \<and> reset_detected (snd (snd (set_angles ''set 10.5'' s)))
       \<and> output_pin (snd (snd (set_angles ''set 10.5'' s)))
       \<and> r_value (snd (snd (set_angles ''set 10.5'' s))) = 17)"
proof -
  define s where "s = \<lparr>target_angles = [90, 180], current_target_index = 1, encoder_active = False,
              reset_detected = True, triggered = True, loop_running = False,
              r_value = 17, output_pin = True\<rparr>"
  have p: "set_angles ''set 10.5'' s
         = ([TargetsSet [21 / 2]], True,
            s\<lparr>target_angles := [21], current_target_index := 0,
              encoder_active := True, loop_running := True\<rparr>)"
    unfolding s_def by code_simp
  from set_angles_frame [OF p] have "triggered (s\<lparr>target_angles := [21], current_target_index := 0,
              encoder_active := True, loop_running := True\<rparr>) = triggered s
     \<and> reset_detected (s\<lparr>target_angles := [21], current_target_index := 0,
              encoder_active := True, loop_running := True\<rparr>) = reset_detected s
     \<and> output_pin (s\<lparr>target_angles := [21], current_target_index := 0,
              encoder_active := True, loop_running := True\<rparr>) = output_pin s
     \<and> r_value (s\<lparr>target_angles := [21], current_target_index := 0,
              encoder_active := True, loop_running := True\<rparr>) = r_value s"
    by blast
  moreover have "triggered s \<and> reset_detected s \<and> output_pin s \<and> r_value s = 17"
    by (simp add: s_def)
  ultimately show ?thesis unfolding s_def [symmetric] Let_def using p by simp
qed

subsection \<open>The stop command\<close>

lemma stop_line: "lower (strip ''stop'') = ''stop'' \<and> take 4 ''stop'' \<noteq> ''set ''"
  by code_simp

lemma prompt_stop: "prompt_loop (''stop'' # ls) s = ([EncoderStopped], NothingStarted, snd (stop_encoder s))"
  using stop_line by (simp add: stop_encoder_def Let_def)

text \<open>
  C7. \<^verbatim>\<open>stop\<close> is idempotent: after it the actuator is off and the sequencer inactive, a
  second \<^verbatim>\<open>stop\<close> gives the same state again, every iteration of a loop that is still
  going sleeps, and stopping an idle sequencer whose actuator is off changes nothing.
\<close>

theorem stop_idempotent:
  "stop_encoder (snd (stop_encoder s)) = stop_encoder s
   \<and> \<not> output_pin (snd (stop_encoder s)) \<and> \<not> encoder_active (snd (stop_encoder s))
   \<and> (\<forall>p. poll ((snd (stop_encoder s))\<lparr>r_value := p\<rparr>) = Sleeping)
   \<and> run [Line ''stop''] s = ([EncoderStopped], snd (stop_encoder s))
   \<and> run [Line ''stop'', Line ''stop''] s = ([EncoderStopped, EncoderStopped], snd (stop_encoder s))
   \<and> (\<not> encoder_active s \<and> \<not> output_pin s \<longrightarrow> snd (stop_encoder s) = s)"
  by (simp add: prompt_stop del: prompt_loop.simps) (simp add: stop_encoder_def poll_def)

theorem stop_idempotent_witness:
  "(let s = snd (run [Line ''set 45,90'', Tick 90] boot_state)
    in encoder_active s \<and> output_pin s
       \<and> \<not> output_pin (snd (run [Line ''stop''] s)) \<and> \<not> encoder_active (snd (run [Line ''stop''] s))
       \<and> \<not> output_pin (snd (run [Line ''stop'', Line ''stop''] s))
       \<and> \<not> encoder_active (snd (run [Line ''stop'', Line ''stop''] s))
       \<and> snd (run [Line ''stop'', Line ''stop''] s) = snd (run [Line ''stop''] s))
   \<and> snd (stop_encoder boot_state) = boot_state"
proof -
  define s where "s = snd (run [Line ''set 45,90'', Tick 90] boot_state)"
  have s: "encoder_active s \<and> output_pin s" unfolding s_def by code_simp
  have b: "\<not> encoder_active boot_state \<and> \<not> output_pin boot_state"
    by (simp add: boot_state_def)
  show ?thesis
    unfolding s_def [symmetric] Let_def
    using stop_idempotent [of s] stop_idempotent [of boot_state] s b
    by (simp del: run.simps step.simps prompt_loop.simps)
qed

subsection \<open>The re-arm guard\<close>

lemma step_Line_keeps_guard:
  "reset_detected (snd (step (Line l) s)) = reset_detected s
   \<and> EncoderReset \<notin> set (fst (step (Line l) s))"
  by (auto simp: set_angles_def stop_encoder_def Let_def split: option.splits)

lemma poll_guarded:
  assumes "reset_detected s" and "r_value s \<le> 10"
  shows "EncoderReset \<notin> set (poll_msgs (poll s)) \<and> reset_detected (after_poll s)"
  using assms by (auto simp: poll_unfold)

lemma step_Tick_eq:
  "loop_running s \<Longrightarrow>
     fst (step (Tick p) s)
       = poll_msgs (poll (s\<lparr>r_value := p\<rparr>))
         @ (case poll (s\<lparr>r_value := p\<rparr>) of Completed m s' \<Rightarrow> [EnterNewAngles] | _ \<Rightarrow> [])
     \<and> snd (step (Tick p) s) = after_poll (s\<lparr>r_value := p\<rparr>)"
  by (simp add: poll_msgs_def after_poll_def split: poll_result.splits)

lemma step_Tick_unread:
  "\<not> reads_count s \<Longrightarrow> step (Tick p) s = ([], s\<lparr>r_value := p\<rparr>)"
  by (auto simp: reads_count_def poll_def)

lemma step_Tick_keeps_guard:
  assumes "reset_detected s" and "reads_count s \<longrightarrow> p \<le> 10"
  shows "reset_detected (snd (step (Tick p) s)) \<and> EncoderReset \<notin> set (fst (step (Tick p) s))"
proof (cases "reads_count s")
  case True
  then have run: "loop_running s" and p: "p \<le> 10"
    using assms(2) by (simp_all add: reads_count_def)
  have "EncoderReset \<notin> set (poll_msgs (poll (s\<lparr>r_value := p\<rparr>)))
        \<and> reset_detected (after_poll (s\<lparr>r_value := p\<rparr>))"
    using assms(1) p by (intro poll_guarded) simp_all
  then show ?thesis using step_Tick_eq [OF run, of p]
    by (auto split: poll_result.splits)
next
  case False
  then show ?thesis using assms(1) by (simp add: step_Tick_unread del: step.simps)
qed

lemma run_keeps_guard:
  assumes "reset_detected s" and "no_count_above 10 es s"
  shows "reset_detected (snd (run es s)) \<and> EncoderReset \<notin> set (fst (run es s))"
  using assms
proof (induction es arbitrary: s)
  case Nil
  then show ?case by simp
next
  case (Cons e es)
  have one: "reset_detected (snd (step e s)) \<and> EncoderReset \<notin> set (fst (step e s))"
    and rest: "no_count_above 10 es (snd (step e s))"
  proof (atomize (full), cases e)
    case (Tick q)
    from Cons.prems(2) have q: "reads_count s \<longrightarrow> q \<le> 10"
      and r: "no_count_above 10 es (snd (step (Tick q) s))"
      unfolding Tick by simp_all
    from step_Tick_keeps_guard [OF Cons.prems(1) q] r
    show "(reset_detected (snd (step e s)) \<and> EncoderReset \<notin> set (fst (step e s)))
        \<and> no_count_above 10 es (snd (step e s))"
      unfolding Tick by blast
  next
    case (Line l)
    from Cons.prems(2) have r: "no_count_above 10 es (snd (step (Line l) s))"
      unfolding Line by simp
    from step_Line_keeps_guard [of l s] Cons.prems(1) r
    show "(reset_detected (snd (step e s)) \<and> EncoderReset \<notin> set (fst (step e s)))
        \<and> no_count_above 10 es (snd (step e s))"
      unfolding Line by blast
  qed
  from Cons.IH [OF one [THEN conjunct1] rest] one
  show ?case by (simp add: split_beta del: step.simps)
qed

lemma reset_sets_guard:
  assumes "EncoderReset \<in> set (fst (step (Tick p) s))"
  shows "reset_detected (snd (step (Tick p) s))"
  using assms by (auto simp: poll_unfold split: if_splits)

text \<open>
  C8. After an iteration in which the reset fired, no reset fires in any run of iterations
  and console lines in which no iteration reads a count above 10 half-steps, however many
  of them read a count below 4; \<^verbatim>\<open>reset_detected\<close> stays set throughout.
\<close>

theorem no_second_reset_before_clear:
  assumes "EncoderReset \<in> set (fst (step (Tick p) s))"
    and "no_count_above 10 es (snd (step (Tick p) s))"
  shows "EncoderReset \<notin> set (fst (run es (snd (step (Tick p) s))))
       \<and> reset_detected (snd (run es (snd (step (Tick p) s))))"
  using run_keeps_guard [OF reset_sets_guard [OF assms(1)] assms(2)] by simp

theorem no_second_reset_before_clear_witness:
  "(let s = snd (run [Line ''set 45,90'', Tick 90] boot_state);
        es = [Tick 0, Tick 3, Tick 10, Line ''stop'', Tick 500, Line ''set 5'', Tick 0, Tick 2]
    in fst (step (Tick 3) s) = [EncoderReset]
       \<and> no_count_above 10 es (snd (step (Tick 3) s))
       \<and> EncoderReset \<notin> set (fst (run es (snd (step (Tick 3) s))))
       \<and> reset_detected (snd (run es (snd (step (Tick 3) s)))))"
proof -
  define s where "s = snd (run [Line ''set 45,90'', Tick 90] boot_state)"
  define es where "es = [Tick 0, Tick 3, Tick 10, Line ''stop'', Tick 500, Line ''set 5'', Tick 0, Tick 2]"
  have f: "fst (step (Tick 3) s) = [EncoderReset]" unfolding s_def by code_simp
  then have a: "EncoderReset \<in> set (fst (step (Tick 3) s))" by simp
  have b: "no_count_above 10 es (snd (step (Tick 3) s))" unfolding es_def s_def by code_simp
  from no_second_reset_before_clear [OF a b] f b show ?thesis
    unfolding s_def [symmetric] es_def [symmetric] Let_def by simp
qed

subsection \<open>Completion\<close>

lemma while_loop_stopped: "\<not> loop_running s \<Longrightarrow> while_loop qs ls s = ([], LoopExit, s, qs)"
  by (cases qs) simp_all

text \<open>
  C9. When the reset fires on the last index of the queue, the iteration stops the
  actuator, clears \<^verbatim>\<open>encoder_active\<close> and \<^verbatim>\<open>loop_running\<close>, and the loop goes to the prompt
  and ends without another iteration: the counts that follow are not consumed, the count
  is left at the 0 the reset wrote, and an iteration of any loop still going would sleep.
\<close>

theorem queue_exhausted_completes:
  assumes "loop_running s" and "encoder_active s"
    and "current_target_index s + 1 = length (target_angles s)"
    and "p < 4" and "\<not> reset_detected s"
  shows "\<exists>m s'. poll (s\<lparr>r_value := p\<rparr>) = Completed (m @ [EncoderReset, AllCompleted, EncoderStopped]) s'
        \<and> \<not> output_pin s' \<and> \<not> encoder_active s' \<and> \<not> loop_running s' \<and> r_value s' = 0
        \<and> current_target_index s' = length (target_angles s')
        \<and> while_loop (p # ps) ls s
            = (m @ [EncoderReset, AllCompleted, EncoderStopped] @ fst (prompt_for_angles ls s'),
               Prompted (fst (snd (prompt_for_angles ls s'))),
               snd (snd (prompt_for_angles ls s')), ps)
        \<and> hd (fst (prompt_for_angles ls s')) = EnterNewAngles
        \<and> (\<forall>q. poll (s'\<lparr>r_value := q\<rparr>) = Sleeping)
        \<and> (\<forall>qs ks. while_loop qs ks s' = ([], LoopExit, s', qs))"
proof -
  define t where "t = s\<lparr>r_value := p\<rparr>"
  have t: "encoder_active t" "current_target_index t + 1 = length (target_angles t)"
    "r_value t < 4" "\<not> reset_detected t" "loop_running t"
    using assms by (simp_all add: t_def)
  then have ne: "target_angles t \<noteq> []" and lt: "current_target_index t < length (target_angles t)"
    by auto
  obtain m s1 where tr: "trigger_step (r_value t)
        (of_int (target_angles t ! current_target_index t) / 2) t = (m, s1)"
    by (cases "trigger_step (r_value t) (of_int (target_angles t ! current_target_index t) / 2) t")
  define s' where "s' = s1\<lparr>r_value := 0, reset_detected := True, triggered := False,
      current_target_index := current_target_index s1 + 1,
      encoder_active := False, output_pin := False, loop_running := False\<rparr>"
  have s1: "target_angles s1 = target_angles t" "current_target_index s1 = current_target_index t"
    "reset_detected s1 = reset_detected t"
    using tr by (auto simp: trigger_step_def split: if_splits)
  have pl: "poll t = Completed (m @ [EncoderReset, AllCompleted, EncoderStopped]) s'"
    using t ne lt tr s1 by (simp add: poll_def Let_def angle_lt_2 stop_encoder_def s'_def)
  have props: "\<not> output_pin s'" "\<not> encoder_active s'" "\<not> loop_running s'" "r_value s' = 0"
    "current_target_index s' = length (target_angles s')"
    using t s1 by (simp_all add: s'_def)
  have wl: "while_loop (p # ps) ls s
            = (m @ [EncoderReset, AllCompleted, EncoderStopped] @ fst (prompt_for_angles ls s'),
               Prompted (fst (snd (prompt_for_angles ls s'))),
               snd (snd (prompt_for_angles ls s')), ps)"
    using assms(1) pl by (simp add: t_def [symmetric] split_beta)
  have hd: "hd (fst (prompt_for_angles ls s')) = EnterNewAngles"
    by (simp add: prompt_for_angles_def split_beta)
  have sl: "\<forall>q. poll (s'\<lparr>r_value := q\<rparr>) = Sleeping"
    using props by (simp add: poll_def)
  have ex: "\<forall>qs ks. while_loop qs ks s' = ([], LoopExit, s', qs)"
    using props by (simp add: while_loop_stopped)
  from pl props wl hd sl ex show ?thesis unfolding t_def by blast
qed

theorem queue_exhausted_completes_witness:
  "(let s = snd (run [Line ''set 45'', Tick 90] boot_state)
    in while_loop [3, 50, 60] [''stop''] s
         = ([EncoderReset, AllCompleted, EncoderStopped, EnterNewAngles, EncoderStopped],
            Prompted NothingStarted,
            s\<lparr>r_value := 0, reset_detected := True, triggered := False,
              current_target_index := 1, encoder_active := False, output_pin := False,
              loop_running := False\<rparr>, [50, 60]))
   \<and> (\<exists>m s'. poll ((snd (run [Line ''set 45'', Tick 90] boot_state))\<lparr>r_value := 3\<rparr>)
          = Completed (m @ [EncoderReset, AllCompleted, EncoderStopped]) s'
        \<and> \<not> output_pin s' \<and> \<not> encoder_active s' \<and> \<not> loop_running s'
        \<and> (\<forall>q. poll (s'\<lparr>r_value := q\<rparr>) = Sleeping))"
proof -
  define s where "s = snd (run [Line ''set 45'', Tick 90] boot_state)"
  have s: "s = \<lparr>target_angles = [90], current_target_index = 0, encoder_active = True,
      reset_detected = False, triggered = True, loop_running = True,
      r_value = 90, output_pin = True\<rparr>"
    unfolding s_def by code_simp
  have a: "loop_running s" "encoder_active s"
    "current_target_index s + 1 = length (target_angles s)" "(3::int) < 4" "\<not> reset_detected s"
    by (simp_all add: s)
  have w: "while_loop [3, 50, 60] [''stop''] s
         = ([EncoderReset, AllCompleted, EncoderStopped, EnterNewAngles, EncoderStopped],
            Prompted NothingStarted,
            s\<lparr>r_value := 0, reset_detected := True, triggered := False,
              current_target_index := 1, encoder_active := False, output_pin := False,
              loop_running := False\<rparr>, [50, 60])"
    unfolding s by code_simp
  from queue_exhausted_completes [OF a, of "[50, 60]" "[''stop'']"] w
  show ?thesis unfolding s_def [symmetric] Let_def by blast
qed

subsection \<open>The queue index stays in range\<close>

text \<open>From the state at boot, no interleaving of iterations and console lines brings an
  iteration to line 39 with the index out of range.\<close>

lemma step_in_range: "index_in_range s \<Longrightarrow> index_in_range (snd (step e s))"
proof (cases e)
  case (Tick p)
  assume "index_in_range s"
  then show ?thesis unfolding Tick
    by (auto simp: index_in_range_def poll_def Let_def trigger_step_def clear_step_def stop_encoder_def)
next
  case (Line l)
  assume "index_in_range s"
  then show ?thesis unfolding Line
    by (auto simp: index_in_range_def set_angles_def stop_encoder_def Let_def split: option.splits)
qed

lemma run_in_range: "index_in_range s \<Longrightarrow> index_in_range (snd (run es s))"
proof (induction es arbitrary: s)
  case Nil
  then show ?case by simp
next
  case (Cons e es)
  from Cons.IH [OF step_in_range [OF Cons.prems, of e]]
  show ?case by (simp add: split_beta del: step.simps)
qed

lemma never_raises: "poll (snd (run es boot_state)) \<noteq> Raised"
proof -
  have "index_in_range boot_state" by (simp add: index_in_range_def boot_state_def)
  then have "index_in_range (snd (run es boot_state))" by (rule run_in_range)
  then show ?thesis by (auto simp: index_in_range_def poll_def Let_def split: prod.splits if_splits)
qed

end
